theory Spec2Isabelle
  imports Main "HOL-Library.AList" "HOL-Library.Char_ord" "HOL-Library.List_Lexorder"
begin

section \<open>Strings, dictionaries and errors\<close>

text \<open>
  The scraper \<^verbatim>\<open>scrape_lodge.py\<close> works on Python strings. A string is modelled as a
  \<^typ>\<open>string\<close> whose characters are read as the code points 0..255; the order on
  strings (\<^verbatim>\<open>sorted\<close>) is the lexicographic order on code points.

  A Python \<^verbatim>\<open>dict\<close> is an association list in insertion order. Assigning to a key
  that is present keeps its position, assigning to a new key appends it, which is what
  \<^const>\<open>AList.update\<close> does.
\<close>

datatype error = KeyError | IndexError

type_synonym ('k, 'v) dict = "('k \<times> 'v) list"

definition dict_get :: "('k, 'v) dict \<Rightarrow> 'k \<Rightarrow> 'v option" where
  "dict_get d k = map_of d k"

definition dict_keys :: "('k, 'v) dict \<Rightarrow> 'k list" where
  "dict_keys d = map fst d"

definition dict_values :: "('k, 'v) dict \<Rightarrow> 'v list" where
  "dict_values d = map snd d"

definition dict_set :: "('k, 'v) dict \<Rightarrow> 'k \<Rightarrow> 'v \<Rightarrow> ('k, 'v) dict" where
  "dict_set d k v = AList.update k v d"

text \<open>\<^verbatim>\<open>d.get(k, default)\<close>\<close>

definition dict_get_default :: "('k, 'v) dict \<Rightarrow> 'k \<Rightarrow> 'v \<Rightarrow> 'v" where
  "dict_get_default d k dflt = (case dict_get d k of None \<Rightarrow> dflt | Some v \<Rightarrow> v)"

text \<open>\<^verbatim>\<open>d[k]\<close>, which raises \<^verbatim>\<open>KeyError\<close> on a missing key.\<close>

definition dict_item :: "('k, 'v) dict \<Rightarrow> 'k \<Rightarrow> error + 'v" where
  "dict_item d k = (case dict_get d k of None \<Rightarrow> Inl KeyError | Some v \<Rightarrow> Inr v)"

text \<open>\<^verbatim>\<open>xs[i]\<close> for a non-negative index, which raises \<^verbatim>\<open>IndexError\<close> out of range.\<close>

definition list_item :: "'a list \<Rightarrow> nat \<Rightarrow> error + 'a" where
  "list_item xs i = (if i < length xs then Inr (xs ! i) else Inl IndexError)"

text \<open>
  \<^verbatim>\<open>str.isspace\<close> on one character, which is also what \<^verbatim>\<open>\s\<close> matches in a pattern
  over \<^verbatim>\<open>str\<close>: TAB..CR, FS..US, space, NEL and the no-break space.
\<close>

definition is_space :: "char \<Rightarrow> bool" where
  "is_space c =
     (let n = (of_char c :: nat)
      in (9 \<le> n \<and> n \<le> 13) \<or> (28 \<le> n \<and> n \<le> 32) \<or> n = 133 \<or> n = 160)"

text \<open>What \<^verbatim>\<open>\d\<close> matches among the code points 0..255.\<close>

definition is_digit :: "char \<Rightarrow> bool" where
  "is_digit c = (let n = (of_char c :: nat) in 48 \<le> n \<and> n \<le> 57)"

definition strip :: "string \<Rightarrow> string" where
  "strip s = rev (dropWhile is_space (rev (dropWhile is_space s)))"

definition startswith :: "string \<Rightarrow> string \<Rightarrow> bool" where
  "startswith s p = (take (length p) s = p)"

text \<open>\<^verbatim>\<open>p in s\<close> for strings.\<close>

fun contains :: "string \<Rightarrow> string \<Rightarrow> bool" where
  "contains p [] = (p = [])"
| "contains p (c # cs) = (startswith (c # cs) p \<or> contains p cs)"

text \<open>
  \<^verbatim>\<open>s.split(sep)\<close> for a non-empty separator: the occurrences of \<open>sep\<close> are found from
  the left and do not overlap. \<open>cur\<close> is the piece read so far.
\<close>

fun split_from :: "string \<Rightarrow> string \<Rightarrow> string \<Rightarrow> string list" where
  "split_from sep cur [] = [cur]"
| "split_from sep cur (c # cs) =
     (if startswith (c # cs) sep then cur # split_from sep [] (drop (length sep - 1) cs)
      else split_from sep (cur @ [c]) cs)"

definition py_split :: "string \<Rightarrow> string \<Rightarrow> string list" where
  "py_split s sep = split_from sep [] s"

text \<open>\<^verbatim>\<open>s[i:j]\<close> for non-negative indices.\<close>

definition slice :: "string \<Rightarrow> nat \<Rightarrow> nat \<Rightarrow> string" where
  "slice s i j = take (j - i) (drop i s)"

text \<open>\<^verbatim>\<open>sep.join(xs)\<close>\<close>

fun join :: "string \<Rightarrow> string list \<Rightarrow> string" where
  "join sep [] = []"
| "join sep [x] = x"
| "join sep (x # y # ys) = x @ sep @ join sep (y # ys)"

text \<open>\<^verbatim>\<open>"{}".format(n)\<close> for a non-negative integer.\<close>

fun str_of_nat :: "nat \<Rightarrow> string" where
  "str_of_nat n =
     (if n < 10 then [''0123456789'' ! n]
      else str_of_nat (n div 10) @ [''0123456789'' ! (n mod 10)])"

section \<open>The wikitext parser\<close>

type_synonym cats = "(string, string list) dict"
type_synonym tiers = "(string, cats) dict"

text \<open>
  An entity record is a Python dict with the keys \<^verbatim>\<open>"name"\<close> and \<^verbatim>\<open>"tiers"\<close>. The
  change detector reads it with \<^verbatim>\<open>.get("tiers", {})\<close>, so either key may be absent
  in a dataset read from storage; any further key is in the record's extension.
\<close>

record entity =
  name :: "string option"
  tiers :: "tiers option"

subsection \<open>The three patterns\<close>

text \<open>
  The patterns of the source have no ambiguity that backtracking could exploit: each
  \<^verbatim>\<open>\s*\<close> and \<^verbatim>\<open>\d+\<close> is followed by a character outside its class, and an optional
  quote is followed by a character that is no quote. So each is matched by reading the
  subject once from the left.

  \<^verbatim>\<open>===\s*(Interesting|Exciting|Super Exciting)\s*===\<close> at the start of \<open>s\<close>: group 1
  and the length of the match.
\<close>

definition tier_labels :: "string list" where
  "tier_labels = [''Interesting'', ''Exciting'', ''Super Exciting'']"

definition match_tier_at :: "string \<Rightarrow> (string \<times> nat) option" where
  "match_tier_at s =
     (if startswith s ''==='' then
        (let r1 = dropWhile is_space (drop 3 s) in
         case find (startswith r1) tier_labels of
           None \<Rightarrow> None
         | Some label \<Rightarrow>
             (let r2 = dropWhile is_space (drop (length label) r1) in
              if startswith r2 ''==='' then Some (label, length s - length r2 + 3)
              else None))
      else None)"

record tier_match =
  m_group1 :: string
  m_start :: nat
  m_end :: nat

text \<open>
  \<^verbatim>\<open>list(tier_pattern.finditer(wikitext))\<close>: \<open>s\<close> is the text from offset \<open>pos\<close> on.
  After a match of length \<open>n\<close> the scan goes on behind it (a match is never empty here,
  and \<^verbatim>\<open>finditer\<close> moves on by one character after an empty one).
\<close>

fun finditer_tier :: "nat \<Rightarrow> string \<Rightarrow> tier_match list" where
  "finditer_tier pos [] = []"
| "finditer_tier pos (c # cs) =
     (case match_tier_at (c # cs) of
        Some (g, n) \<Rightarrow>
          \<lparr>m_group1 = g, m_start = pos, m_end = pos + n\<rparr>
            # finditer_tier (pos + n) (drop (n - 1) cs)
      | None \<Rightarrow> finditer_tier (Suc pos) cs)"

text \<open>\<^verbatim>\<open>re.search(r"==\s*Scrapbook", s)\<close>: the offset of the first match.\<close>

definition match_scrapbook_at :: "string \<Rightarrow> bool" where
  "match_scrapbook_at s =
     (startswith s ''=='' \<and> startswith (dropWhile is_space (drop 2 s)) ''Scrapbook'')"

fun search_scrapbook :: "string \<Rightarrow> nat option" where
  "search_scrapbook [] = None"
| "search_scrapbook (c # cs) =
     (if match_scrapbook_at (c # cs) then Some 0
      else map_option Suc (search_scrapbook cs))"

text \<open>
  \<^verbatim>\<open>re.match(r'!colspan=["\']?\d+["\']?\|(.+)', line)\<close>: group 1 when the line matches.
  The dot matches every character but the line feed.
\<close>

definition drop_quote :: "string \<Rightarrow> string" where
  "drop_quote s =
     (case s of [] \<Rightarrow> [] | c # cs \<Rightarrow> if c = CHR 0x22 \<or> c = CHR 0x27 then cs else s)"

definition cat_match :: "string \<Rightarrow> string option" where
  "cat_match line =
     (if startswith line ''!colspan='' then
        (let r1 = drop_quote (drop 9 line);
             r2 = drop_quote (dropWhile is_digit r1)
         in if takeWhile is_digit r1 = [] then None
            else (case r2 of
                    [] \<Rightarrow> None
                  | c # r3 \<Rightarrow>
                      if c = CHR ''|'' \<and> takeWhile (\<lambda>x. x \<noteq> CHR 0x0A) r3 \<noteq> []
                      then Some (takeWhile (\<lambda>x. x \<noteq> CHR 0x0A) r3)
                      else None))
      else None)"

subsection \<open>\<^verbatim>\<open>parse_tier_content\<close>\<close>

text \<open>\<^verbatim>\<open>categories[k].append(t)\<close>\<close>

definition append_topic :: "cats \<Rightarrow> string \<Rightarrow> string \<Rightarrow> error + cats" where
  "append_topic categories k t =
     (case dict_item categories k of
        Inl e \<Rightarrow> Inl e
      | Inr topics \<Rightarrow> Inr (dict_set categories k (topics @ [t])))"

text \<open>The loop over \<^verbatim>\<open>raw.split("||")\<close>.\<close>

fun append_topics :: "cats \<Rightarrow> string \<Rightarrow> string list \<Rightarrow> error + cats" where
  "append_topics categories k [] = Inr categories"
| "append_topics categories k (t # ts) =
     (if strip t \<noteq> [] then
        (case append_topic categories k (strip t) of
           Inl e \<Rightarrow> Inl e
         | Inr categories' \<Rightarrow> append_topics categories' k ts)
      else append_topics categories k ts)"

text \<open>
  The body of the loop over the lines, on the pair of \<^verbatim>\<open>categories\<close> and
  \<^verbatim>\<open>current_category\<close>. A \<^verbatim>\<open>continue\<close> returns the state as it is.
\<close>

definition parse_line :: "cats \<times> string option \<Rightarrow> string \<Rightarrow> error + cats \<times> string option" where
  "parse_line st line0 =
     (let categories = fst st; current_category = snd st; line = strip line0 in
      if line = [] \<or> line = ''|-'' \<or> line = ''|}'' \<or> startswith line ''{|'' then Inr st
      else
        (case cat_match line of
           Some g \<Rightarrow>
             (let c = (if contains ''Pok'' (strip g) then ''Pokemon'' else strip g)
              in Inr (dict_set categories c [], Some c))
         | None \<Rightarrow>
             (case current_category of
                None \<Rightarrow> Inr st
              | Some cur \<Rightarrow>
                  if cur \<noteq> [] \<and> startswith line ''|'' \<and> \<not> startswith line ''{|'' then
                    (let raw = strip (drop 1 line) in
                     if raw = [] \<or> startswith raw ''class='' \<or> startswith raw ''style=''
                     then Inr st
                     else if contains ''||'' raw then
                       (case append_topics categories cur (py_split raw ''||'') of
                          Inl e \<Rightarrow> Inl e
                        | Inr categories' \<Rightarrow> Inr (categories', current_category))
                     else
                       (case append_topic categories cur raw of
                          Inl e \<Rightarrow> Inl e
                        | Inr categories' \<Rightarrow> Inr (categories', current_category)))
                  else Inr st)))"

fun parse_lines :: "cats \<times> string option \<Rightarrow> string list \<Rightarrow> error + cats \<times> string option" where
  "parse_lines st [] = Inr st"
| "parse_lines st (l # ls) =
     (case parse_line st l of Inl e \<Rightarrow> Inl e | Inr st' \<Rightarrow> parse_lines st' ls)"

definition parse_tier_content :: "string \<Rightarrow> error + cats" where
  "parse_tier_content content =
     (case parse_lines ([], None) (py_split content [CHR 0x0A]) of
        Inl e \<Rightarrow> Inl e
      | Inr st \<Rightarrow> Inr (fst st))"

subsection \<open>\<^verbatim>\<open>parse_wikitext\<close>\<close>

text \<open>The end of the section of the \<open>i\<close>-th match, whose content starts at \<open>start\<close>.\<close>

definition section_end :: "string \<Rightarrow> tier_match list \<Rightarrow> nat \<Rightarrow> nat \<Rightarrow> error + nat" where
  "section_end wikitext tier_matches i start =
     (if i + 1 < length tier_matches then
        (case list_item tier_matches (i + 1) of
           Inl e \<Rightarrow> Inl e
         | Inr m \<Rightarrow> Inr (m_start m))
      else
        (case search_scrapbook (slice wikitext start (length wikitext)) of
           Some k \<Rightarrow> Inr (start + k)
         | None \<Rightarrow> Inr (length wikitext)))"

text \<open>\<^verbatim>\<open>tier_content = wikitext[start:end]\<close> for the \<open>i\<close>-th match \<open>m\<close>.\<close>

definition tier_content :: "string \<Rightarrow> tier_match list \<Rightarrow> nat \<Rightarrow> tier_match \<Rightarrow> error + string" where
  "tier_content wikitext tier_matches i m =
     (case section_end wikitext tier_matches i (m_end m) of
        Inl e \<Rightarrow> Inl e
      | Inr en \<Rightarrow> Inr (slice wikitext (m_end m) en))"

text \<open>The loop over \<^verbatim>\<open>enumerate(tier_matches)\<close>, on \<^verbatim>\<open>result["tiers"]\<close>.\<close>

fun parse_sections ::
  "string \<Rightarrow> tier_match list \<Rightarrow> (nat \<times> tier_match) list \<Rightarrow> tiers \<Rightarrow> error + tiers" where
  "parse_sections wikitext tier_matches [] result = Inr result"
| "parse_sections wikitext tier_matches ((i, m) # rest) result =
     (case tier_content wikitext tier_matches i m of
        Inl e \<Rightarrow> Inl e
      | Inr content \<Rightarrow>
          (case parse_tier_content content of
             Inl e \<Rightarrow> Inl e
           | Inr categories \<Rightarrow>
               parse_sections wikitext tier_matches rest
                 (if categories \<noteq> [] then dict_set result (m_group1 m) categories
                  else result)))"

definition parse_wikitext :: "string \<Rightarrow> string \<Rightarrow> error + entity" where
  "parse_wikitext wikitext trainer_name =
     (let tier_matches = finditer_tier 0 wikitext in
      case parse_sections wikitext tier_matches (enumerate 0 tier_matches) [] of
        Inl e \<Rightarrow> Inl e
      | Inr t \<Rightarrow> Inr \<lparr>name = Some trainer_name, tiers = Some t\<rparr>)"

section \<open>The change detector\<close>

text \<open>
  A change record is a Python dict with the keys \<^verbatim>\<open>"type"\<close>, \<^verbatim>\<open>"trainer"\<close> and, but
  for a removed trainer, \<^verbatim>\<open>"details"\<close>.
\<close>

record change =
  change_type :: string
  trainer :: string
  details :: "string option"

text \<open>\<^verbatim>\<open>e.get("tiers", {})\<close>\<close>

definition get_tiers :: "'a entity_scheme \<Rightarrow> tiers" where
  "get_tiers e = (case tiers e of None \<Rightarrow> [] | Some t \<Rightarrow> t)"

text \<open>
  \<^verbatim>\<open>sum(sum(len(items) for items in cats.values()) for cats in tiers.values())\<close>
\<close>

definition topic_count :: "tiers \<Rightarrow> nat" where
  "topic_count ts =
     sum_list (map (\<lambda>cats. sum_list (map length (dict_values cats))) (dict_values ts))"

subsection \<open>\<^verbatim>\<open>json.dumps(obj, sort_keys=True)\<close>\<close>

text \<open>
  The encoder with its defaults (\<^verbatim>\<open>ensure_ascii\<close>, the separators \<^verbatim>\<open>", "\<close> and
  \<^verbatim>\<open>": "\<close>), on a mapping of section names to mappings of category names to lists
  of strings. A character outside \<^verbatim>\<open>' '..'~'\<close> is written as an escape.
\<close>

definition hex_digit :: "nat \<Rightarrow> char" where
  "hex_digit k = ''0123456789abcdef'' ! (k mod 16)"

definition json_escape :: "char \<Rightarrow> string" where
  "json_escape c =
     (let n = (of_char c :: nat) in
      if c = CHR 0x5C then [CHR 0x5C, CHR 0x5C]
      else if c = CHR 0x22 then [CHR 0x5C, CHR 0x22]
      else if c = CHR 0x08 then [CHR 0x5C, CHR ''b'']
      else if c = CHR 0x0C then [CHR 0x5C, CHR ''f'']
      else if c = CHR 0x0A then [CHR 0x5C, CHR ''n'']
      else if c = CHR 0x0D then [CHR 0x5C, CHR ''r'']
      else if c = CHR 0x09 then [CHR 0x5C, CHR ''t'']
      else if n < 32 \<or> 126 < n
        then [CHR 0x5C, CHR ''u'', CHR ''0'', CHR ''0'', hex_digit (n div 16), hex_digit n]
      else [c])"

definition json_string :: "string \<Rightarrow> string" where
  "json_string s = [CHR 0x22] @ concat (map json_escape s) @ [CHR 0x22]"

definition json_list :: "string list \<Rightarrow> string" where
  "json_list xs = ''['' @ join '', '' (map json_string xs) @ '']''"

text \<open>An object, from its keys and the encodings of their values; the keys are sorted.\<close>

definition json_object :: "(string \<times> string) list \<Rightarrow> string" where
  "json_object items =
     ''{'' @ join '', '' (map (\<lambda>kv. json_string (fst kv) @ '': '' @ snd kv) (sort_key fst items))
       @ ''}''"

definition json_dumps_cats :: "cats \<Rightarrow> string" where
  "json_dumps_cats c = json_object (map (\<lambda>kv. (fst kv, json_list (snd kv))) c)"

definition json_dumps_tiers :: "tiers \<Rightarrow> string" where
  "json_dumps_tiers t = json_object (map (\<lambda>kv. (fst kv, json_dumps_cats (snd kv))) t)"

subsection \<open>\<^verbatim>\<open>compare_data\<close>\<close>

text \<open>
  A loop that appends to \<^verbatim>\<open>changes\<close>: the body gives the records it appends for one
  element, or the exception it raises, which ends the loop.
\<close>

fun for_each :: "('a \<Rightarrow> error + 'b list) \<Rightarrow> 'a list \<Rightarrow> error + 'b list" where
  "for_each body [] = Inr []"
| "for_each body (x # xs) =
     (case body x of
        Inl e \<Rightarrow> Inl e
      | Inr ys \<Rightarrow> (case for_each body xs of Inl e \<Rightarrow> Inl e | Inr zs \<Rightarrow> Inr (ys @ zs)))"

definition new_trainer_change ::
  "(string, 'a entity_scheme) dict \<Rightarrow> string \<Rightarrow> error + change list" where
  "new_trainer_change new_data trainer_name =
     (case dict_item new_data trainer_name of
        Inl e \<Rightarrow> Inl e
      | Inr ent \<Rightarrow>
          Inr [\<lparr>change_type = ''new_trainer'', trainer = trainer_name,
                details = Some (str_of_nat (length (get_tiers ent)) @ '' tiers, ''
                                @ str_of_nat (topic_count (get_tiers ent)) @ '' topics'')\<rparr>])"

definition removed_trainer_change :: "string \<Rightarrow> error + change list" where
  "removed_trainer_change trainer_name =
     Inr [\<lparr>change_type = ''removed_trainer'', trainer = trainer_name, details = None\<rparr>]"

text \<open>The body of the loop over \<^verbatim>\<open>all_cat_names\<close>: the lines it appends to \<^verbatim>\<open>details\<close>.\<close>

definition category_details :: "string \<Rightarrow> cats \<Rightarrow> cats \<Rightarrow> string \<Rightarrow> string list" where
  "category_details tier_name old_cats new_cats cat_name =
     (let old_topics = set (dict_get_default old_cats cat_name []);
          new_topics = set (dict_get_default new_cats cat_name []);
          added = sorted_list_of_set (new_topics - old_topics);
          removed = sorted_list_of_set (old_topics - new_topics)
      in (if added \<noteq> []
          then [''+['' @ tier_name @ ''/'' @ cat_name @ '']: '' @ join '', '' added] else [])
       @ (if removed \<noteq> []
          then [''-['' @ tier_name @ ''/'' @ cat_name @ '']: '' @ join '', '' removed] else []))"

text \<open>The body of the loop over \<^verbatim>\<open>all_tier_names\<close>.\<close>

definition tier_details :: "tiers \<Rightarrow> tiers \<Rightarrow> string \<Rightarrow> string list" where
  "tier_details old_tiers new_tiers tier_name =
     (let old_cats = dict_get_default old_tiers tier_name [];
          new_cats = dict_get_default new_tiers tier_name [];
          all_cat_names = sorted_list_of_set (set (dict_keys old_cats @ dict_keys new_cats))
      in concat (map (category_details tier_name old_cats new_cats) all_cat_names))"

definition all_details :: "tiers \<Rightarrow> tiers \<Rightarrow> string list" where
  "all_details old_tiers new_tiers =
     (let all_tier_names = sorted_list_of_set (set (dict_keys old_tiers @ dict_keys new_tiers))
      in concat (map (tier_details old_tiers new_tiers) all_tier_names))"

definition modified_trainer_change ::
  "(string, 'a entity_scheme) dict \<Rightarrow> (string, 'b entity_scheme) dict \<Rightarrow> string
     \<Rightarrow> error + change list" where
  "modified_trainer_change old_data new_data trainer_name =
     (case dict_item old_data trainer_name of
        Inl e \<Rightarrow> Inl e
      | Inr old_ent \<Rightarrow>
          (case dict_item new_data trainer_name of
             Inl e \<Rightarrow> Inl e
           | Inr new_ent \<Rightarrow>
               (let old_tiers = get_tiers old_ent; new_tiers = get_tiers new_ent in
                if json_dumps_tiers old_tiers = json_dumps_tiers new_tiers then Inr []
                else if all_details old_tiers new_tiers \<noteq> [] then
                  Inr [\<lparr>change_type = ''modified_trainer'', trainer = trainer_name,
                        details = Some (join ''; '' (all_details old_tiers new_tiers))\<rparr>]
                else Inr [])))"

definition compare_data ::
  "(string, 'a entity_scheme) dict \<Rightarrow> (string, 'b entity_scheme) dict \<Rightarrow> error + change list" where
  "compare_data old_data new_data =
     (let old_names = set (dict_keys old_data); new_names = set (dict_keys new_data) in
      case for_each (new_trainer_change new_data) (sorted_list_of_set (new_names - old_names)) of
        Inl e \<Rightarrow> Inl e
      | Inr new_changes \<Rightarrow>
          (case for_each removed_trainer_change (sorted_list_of_set (old_names - new_names)) of
             Inl e \<Rightarrow> Inl e
           | Inr removed_changes \<Rightarrow>
               (case for_each (modified_trainer_change old_data new_data)
                       (sorted_list_of_set (old_names \<inter> new_names)) of
                  Inl e \<Rightarrow> Inl e
                | Inr modified_changes \<Rightarrow>
                    Inr (new_changes @ removed_changes @ modified_changes))))"

section \<open>The snapshot store\<close>

record metadata =
  last_updated :: string
  meta_trainer_count :: nat
  total_topics :: nat
  source :: string
  scraper_version :: string
  errors :: "string list"

text \<open>
  The document written to \<^verbatim>\<open>DATA_FILE\<close> is one dict: the key \<^verbatim>\<open>"_metadata"\<close> first,
  with the metadata, then the trainers with their records.
\<close>

type_synonym data_document = "(string, metadata + entity) dict"

record changelog_entry =
  date :: string
  trainer_count :: nat
  change_count :: nat
  changes :: "change list"

record changelog =
  updates :: "changelog_entry list"

text \<open>What \<^verbatim>\<open>save_data\<close> writes to the two files.\<close>

record saved =
  data_file :: data_document
  changelog_file :: changelog

text \<open>\<^verbatim>\<open>for name in names: output[name] = new_data[name]\<close>\<close>

fun copy_items ::
  "(string, entity) dict \<Rightarrow> string list \<Rightarrow> data_document \<Rightarrow> error + data_document" where
  "copy_items new_data [] output = Inr output"
| "copy_items new_data (trainer_name # trainer_names) output =
     (case dict_item new_data trainer_name of
        Inl e \<Rightarrow> Inl e
      | Inr v \<Rightarrow> copy_items new_data trainer_names (dict_set output trainer_name (Inr v)))"

text \<open>
  \<^verbatim>\<open>save_data(new_data, changes, changelog, errors)\<close>, where \<open>now\<close> is the time stamp
  that the source reads from the clock.
\<close>

definition save_data ::
  "string \<Rightarrow> (string, entity) dict \<Rightarrow> change list \<Rightarrow> changelog \<Rightarrow> string list \<Rightarrow> error + saved" where
  "save_data now new_data changes_list changelog_in errors_list =
     (let total = sum_list (map (\<lambda>t. topic_count (get_tiers t)) (dict_values new_data));
          meta = \<lparr>last_updated = now, meta_trainer_count = length new_data,
                  total_topics = total, source = ''pokemon-masters-ex-game.fandom.com'',
                  scraper_version = ''2.0'', errors = errors_list\<rparr>
      in case copy_items new_data (sorted_list_of_set (set (dict_keys new_data)))
                [(''_metadata'', Inl meta)] of
           Inl e \<Rightarrow> Inl e
         | Inr output \<Rightarrow>
             Inr \<lparr>data_file = output,
                  changelog_file =
                    (if changes_list \<noteq> [] then
                       changelog_in\<lparr>updates :=
                         take 50 (\<lparr>date = now, trainer_count = length new_data,
                                    change_count = length changes_list,
                                    changes = changes_list\<rparr> # updates changelog_in)\<rparr>
                     else changelog_in)\<rparr>)"

text \<open>
  Successive runs of \<^verbatim>\<open>main\<close>: each run loads the changelog that the run before it
  stored and calls \<^verbatim>\<open>save_data\<close> with its own time stamp, dataset, changes and errors.
\<close>

record run =
  run_now :: string
  run_data :: "(string, entity) dict"
  run_changes :: "change list"
  run_errors :: "string list"

fun successive_runs :: "changelog \<Rightarrow> run list \<Rightarrow> error + changelog" where
  "successive_runs cl [] = Inr cl"
| "successive_runs cl (r # rs) =
     (case save_data (run_now r) (run_data r) (run_changes r) cl (run_errors r) of
        Inl e \<Rightarrow> Inl e
      | Inr out \<Rightarrow> successive_runs (changelog_file out) rs)"

section \<open>Notions used in the statements\<close>

text \<open>
  The invariant of the loop of \<^verbatim>\<open>parse_tier_content\<close>: the active category, when there
  is one, is a key of \<^verbatim>\<open>categories\<close>.
\<close>

definition cur_ok :: "cats \<times> string option \<Rightarrow> bool" where
  "cur_ok st = (case snd st of None \<Rightarrow> True | Some c \<Rightarrow> c \<in> set (dict_keys (fst st)))"

text \<open>
  The entry list that the change detector reads for a section and a category:
  \<^verbatim>\<open>tiers.get(tier_name, {}).get(cat_name, [])\<close>.
\<close>

definition topics_at :: "tiers \<Rightarrow> string \<Rightarrow> string \<Rightarrow> string list" where
  "topics_at ts tier_name cat_name =
     dict_get_default (dict_get_default ts tier_name []) cat_name []"

text \<open>
  Two section mappings with the same sections, the same categories in each section and,
  in each category, entry lists that are equal as sets.
\<close>

definition set_equal_tiers :: "tiers \<Rightarrow> tiers \<Rightarrow> bool" where
  "set_equal_tiers old_tiers new_tiers =
     (set (dict_keys old_tiers) = set (dict_keys new_tiers)
      \<and> (\<forall>t \<in> set (dict_keys old_tiers).
            set (dict_keys (dict_get_default old_tiers t []))
              = set (dict_keys (dict_get_default new_tiers t []))
            \<and> (\<forall>c \<in> set (dict_keys (dict_get_default old_tiers t [])).
                  set (topics_at old_tiers t c) = set (topics_at new_tiers t c))))"

text \<open>
  Over the sections and categories of either side, the entry lists are equal as sets.
\<close>

definition set_equal_topics :: "tiers \<Rightarrow> tiers \<Rightarrow> bool" where
  "set_equal_topics old_tiers new_tiers =
     (\<forall>t \<in> set (dict_keys old_tiers @ dict_keys new_tiers).
        \<forall>c \<in> set (dict_keys (dict_get_default old_tiers t [])
                    @ dict_keys (dict_get_default new_tiers t [])).
          set (topics_at old_tiers t c) = set (topics_at new_tiers t c))"

text \<open>
  Python's \<^verbatim>\<open>==\<close> on dicts, which does not see the insertion order, for a mapping of
  categories and for a mapping of sections.
\<close>

definition cats_equal :: "cats \<Rightarrow> cats \<Rightarrow> bool" where
  "cats_equal c1 c2 =
     (set (dict_keys c1) = set (dict_keys c2)
      \<and> (\<forall>k \<in> set (dict_keys c1). dict_get c1 k = dict_get c2 k))"

definition tiers_equal :: "tiers \<Rightarrow> tiers \<Rightarrow> bool" where
  "tiers_equal t1 t2 =
     (set (dict_keys t1) = set (dict_keys t2)
      \<and> (\<forall>k \<in> set (dict_keys t1).
            cats_equal (dict_get_default t1 k []) (dict_get_default t2 k [])))"

text \<open>A dataset with every record cut down to what \<^verbatim>\<open>.get("tiers", {})\<close> reads.\<close>

definition tiers_projection :: "(string, 'a entity_scheme) dict \<Rightarrow> (string, tiers) dict" where
  "tiers_projection d = map (\<lambda>kv. (fst kv, get_tiers (snd kv))) d"

text \<open>The changelog entry that a run with at least one change stores.\<close>

definition run_entry :: "run \<Rightarrow> changelog_entry" where
  "run_entry r =
     \<lparr>date = run_now r, trainer_count = length (run_data r),
      change_count = length (run_changes r), changes = run_changes r\<rparr>"

text \<open>
  The category that a line opens when it is a category header: group 1 of the header
  pattern, trimmed and normalised as the line loop does.
\<close>

definition header_name :: "string \<Rightarrow> string option" where
  "header_name line =
     map_option (\<lambda>g. if contains ''Pok'' (strip g) then ''Pokemon'' else strip g)
       (cat_match (strip line))"

text \<open>
  The entries that a line carries when it is read under an active category (section 4.1,
  step 4 of the specification): none for a line that is no cell line, a row separator, a
  table end or a formatting attribute; the non-empty trimmed pieces between \<^verbatim>\<open>||\<close> when
  the text has that separator; the trimmed text otherwise.
\<close>

definition entry_topics :: "string \<Rightarrow> string list" where
  "entry_topics line0 =
     (let line = strip line0; raw = strip (drop 1 line) in
      if line = ''|-'' \<or> line = ''|}'' \<or> \<not> startswith line ''|'' \<or> raw = []
         \<or> startswith raw ''class='' \<or> startswith raw ''style='' then []
      else if contains ''||'' raw then filter (\<lambda>t. t \<noteq> []) (map strip (py_split raw ''||''))
      else [raw])"


section \<open>The parser never raises\<close>

lemma dict_get_Some_iff: "(\<exists>v. dict_get d k = Some v) \<longleftrightarrow> k \<in> set (dict_keys d)"
  using map_of_eq_None_iff [of d k] by (auto simp: dict_get_def dict_keys_def)

lemma dict_keys_set: "set (dict_keys (dict_set d k v)) = insert k (set (dict_keys d))"
  using dom_update [of k v d]
  by (simp add: dict_keys_def dict_set_def dom_map_of_conv_image_fst)

lemma dict_get_set: "dict_get (dict_set d k v) k' = (if k' = k then Some v else dict_get d k')"
  by (simp add: dict_get_def dict_set_def update_conv')

lemma append_topic_ok:
  assumes "k \<in> set (dict_keys categories)"
  shows "\<exists>c'. append_topic categories k t = Inr c'
               \<and> set (dict_keys c') = set (dict_keys categories)"
proof -
  from assms obtain v where "dict_get categories k = Some v"
    using dict_get_Some_iff by fastforce
  with assms show ?thesis
    by (auto simp: append_topic_def dict_item_def dict_keys_set)
qed

lemma append_topics_ok:
  "k \<in> set (dict_keys categories) \<Longrightarrow>
   \<exists>c'. append_topics categories k ts = Inr c'
        \<and> set (dict_keys c') = set (dict_keys categories)"
proof (induction ts arbitrary: categories)
  case Nil
  then show ?case by simp
next
  case (Cons t ts)
  show ?case
  proof (cases "strip t = []")
    case True
    with Cons show ?thesis by simp
  next
    case False
    from append_topic_ok [OF Cons.prems, of "strip t"] obtain c1 where
      c1: "append_topic categories k (strip t) = Inr c1"
        "set (dict_keys c1) = set (dict_keys categories)"
      by blast
    with Cons.prems have "k \<in> set (dict_keys c1)" by simp
    from Cons.IH [OF this] c1 False show ?thesis by auto
  qed
qed

lemma parse_line_ok:
  assumes "cur_ok st"
  shows "\<exists>st'. parse_line st l = Inr st' \<and> cur_ok st'"
proof -
  obtain categories cur where st: "st = (categories, cur)" by (cases st)
  show ?thesis
  proof (cases cur)
    case None
    with st show ?thesis
      by (simp add: parse_line_def Let_def cur_ok_def dict_keys_set split: option.splits)
  next
    case (Some c)
    with assms st have k: "c \<in> set (dict_keys categories)" by (simp add: cur_ok_def)
    obtain c1 where c1: "append_topic categories c (strip (drop 1 (strip l))) = Inr c1"
      "set (dict_keys c1) = set (dict_keys categories)"
      using append_topic_ok [OF k] by blast
    obtain c2 where
      c2: "append_topics categories c (py_split (strip (drop 1 (strip l))) ''||'') = Inr c2"
        "set (dict_keys c2) = set (dict_keys categories)"
      using append_topics_ok [OF k] by blast
    from Some k c1 c2 st show ?thesis
      by (simp add: parse_line_def Let_def cur_ok_def dict_keys_set split: option.splits)
  qed
qed

lemma parse_lines_ok:
  "cur_ok st \<Longrightarrow> \<exists>st'. parse_lines st ls = Inr st' \<and> cur_ok st'"
proof (induction ls arbitrary: st)
  case Nil
  then show ?case by simp
next
  case (Cons l ls)
  from parse_line_ok [OF Cons.prems, of l] obtain st1 where
    "parse_line st l = Inr st1" "cur_ok st1" by blast
  with Cons.IH [of st1] show ?case by simp
qed

lemma parse_tier_content_ok: "\<exists>categories. parse_tier_content content = Inr categories"
proof -
  have "cur_ok ([], None)" by (simp add: cur_ok_def)
  from parse_lines_ok [OF this, of "py_split content [CHR 0x0A]"] show ?thesis
    by (auto simp: parse_tier_content_def)
qed

lemma section_end_ok: "\<exists>en. section_end w ms i start = Inr en"
  by (simp add: section_end_def list_item_def split: option.splits)

lemma tier_content_ok: "\<exists>content. tier_content w ms i m = Inr content"
  using section_end_ok [of w ms i "m_end m"] by (auto simp: tier_content_def)

lemma parse_sections_ok: "\<exists>t. parse_sections w ms ims result = Inr t"
proof (induction ims arbitrary: result)
  case Nil
  then show ?case by simp
next
  case (Cons im ims)
  obtain i m where im: "im = (i, m)" by (cases im)
  obtain content where en: "tier_content w ms i m = Inr content"
    using tier_content_ok by blast
  obtain categories where c: "parse_tier_content content = Inr categories"
    using parse_tier_content_ok by blast
  from Cons.IH im en c show ?case by simp
qed

text \<open>
  C1. For every markup string and every identifier, \<^verbatim>\<open>parse_wikitext\<close> returns a record
  and raises nothing: the record carries the identifier and a section mapping, which is
  empty when no section header matches. A line that is neither a category header nor a
  cell line leaves the state of the line loop as it is.
\<close>

theorem parse_wikitext_never_raises:
  "(\<exists>t. parse_wikitext wikitext trainer_name
           = Inr \<lparr>name = Some trainer_name, tiers = Some t\<rparr>
        \<and> (finditer_tier 0 wikitext = [] \<longrightarrow> t = []))
   \<and> (\<forall>st l. cat_match (strip l) = None \<and> \<not> startswith (strip l) ''|''
         \<longrightarrow> parse_line st l = Inr st)"
proof (intro conjI allI impI)
  obtain t where t: "parse_sections wikitext (finditer_tier 0 wikitext)
      (enumerate 0 (finditer_tier 0 wikitext)) [] = Inr t"
    using parse_sections_ok by blast
  then have "finditer_tier 0 wikitext = [] \<longrightarrow> t = []" by auto
  with t show "\<exists>t. parse_wikitext wikitext trainer_name
           = Inr \<lparr>name = Some trainer_name, tiers = Some t\<rparr>
        \<and> (finditer_tier 0 wikitext = [] \<longrightarrow> t = [])"
    by (simp add: parse_wikitext_def)
next
  fix st :: "cats \<times> string option" and l
  assume "cat_match (strip l) = None \<and> \<not> startswith (strip l) ''|''"
  then show "parse_line st l = Inr st"
    by (simp add: parse_line_def Let_def split: option.splits)
qed

theorem parse_wikitext_never_raises_witness:
  "finditer_tier 0 ''<html>not a lodge page</html>'' = []
   \<and> parse_wikitext ''<html>not a lodge page</html>'' ''Red''
       = Inr \<lparr>name = Some ''Red'', tiers = Some []\<rparr>
   \<and> cat_match (strip ''!colspan=|Topics'') = None
   \<and> \<not> startswith (strip ''!colspan=|Topics'') ''|''
   \<and> parse_line ([(''Hobbies'', [])], Some ''Hobbies'') ''!colspan=|Topics''
       = Inr ([(''Hobbies'', [])], Some ''Hobbies'')"
proof -
  have h1: "finditer_tier 0 ''<html>not a lodge page</html>'' = []" by code_simp
  have h2: "cat_match (strip ''!colspan=|Topics'') = None" by code_simp
  have h3: "\<not> startswith (strip ''!colspan=|Topics'') ''|''" by code_simp
  from parse_wikitext_never_raises [of "''<html>not a lodge page</html>''" "''Red''"] h1 h2 h3
  show ?thesis by auto
qed

section \<open>The change detector on the scenario of the specification\<close>

text \<open>
  C3. On the old dataset \<^verbatim>\<open>{"A": {"tiers": {"Interesting": {"Pokemon": ["X"]}}}}\<close> and
  the new dataset \<^verbatim>\<open>{"A": {"tiers": {"Interesting": {"Pokemon": ["X","Y"]}}}}\<close>,
  \<^verbatim>\<open>compare_data\<close> returns exactly one record, of type \<^verbatim>\<open>modified_trainer\<close>, for
  \<^verbatim>\<open>"A"\<close>, with the details \<^verbatim>\<open>+[Interesting/Pokemon]: Y\<close>.
\<close>

theorem compare_data_scenario:
  "compare_data
     [(''A'', \<lparr>name = None, tiers = Some [(''Interesting'', [(''Pokemon'', [''X''])])]\<rparr>)]
     [(''A'', \<lparr>name = None, tiers = Some [(''Interesting'', [(''Pokemon'', [''X'', ''Y''])])]\<rparr>)]
   = Inr [\<lparr>change_type = ''modified_trainer'', trainer = ''A'',
           details = Some ''+[Interesting/Pokemon]: Y''\<rparr>]"
  by code_simp

section \<open>The change detector's output\<close>

lemma for_each_total:
  "(\<forall>x \<in> set xs. \<exists>ys. body x = Inr ys) \<Longrightarrow> \<exists>zs. for_each body xs = Inr zs"
  by (induction xs) auto

lemma for_each_mem:
  "for_each body xs = Inr zs \<Longrightarrow> z \<in> set zs \<Longrightarrow>
   \<exists>x \<in> set xs. \<exists>ys. body x = Inr ys \<and> z \<in> set ys"
  by (induction xs arbitrary: zs) (auto split: sum.splits)

lemma for_each_Nil:
  "(\<forall>x \<in> set xs. body x = Inr []) \<Longrightarrow> for_each body xs = Inr []"
  by (induction xs) auto

lemma dict_item_ok:
  "k \<in> set (dict_keys d) \<Longrightarrow> \<exists>v. dict_item d k = Inr v \<and> dict_get d k = Some v"
  using dict_get_Some_iff [of d k] by (auto simp: dict_item_def)

lemma dict_get_default_absent:
  "k \<notin> set (dict_keys d) \<Longrightarrow> dict_get_default d k dflt = dflt"
  using dict_get_Some_iff [of d k] by (cases "dict_get d k") (auto simp: dict_get_default_def)

lemma new_trainer_change_ok:
  "n \<in> set (dict_keys new_data) \<Longrightarrow>
   \<exists>c. new_trainer_change new_data n = Inr [c] \<and> trainer c = n \<and> change_type c = ''new_trainer''"
  using dict_item_ok [of n new_data] by (auto simp: new_trainer_change_def)

lemma removed_trainer_change_ok:
  "\<exists>c. removed_trainer_change n = Inr [c] \<and> trainer c = n \<and> change_type c = ''removed_trainer''"
  by (simp add: removed_trainer_change_def)

lemma modified_trainer_change_ok:
  assumes "n \<in> set (dict_keys old_data)" "n \<in> set (dict_keys new_data)"
  shows "modified_trainer_change old_data new_data n = Inr []
         \<or> (\<exists>c. modified_trainer_change old_data new_data n = Inr [c] \<and> trainer c = n
                \<and> change_type c = ''modified_trainer'')"
proof -
  from dict_item_ok [OF assms(1)] obtain v where v: "dict_item old_data n = Inr v" by blast
  from dict_item_ok [OF assms(2)] obtain w where w: "dict_item new_data n = Inr w" by blast
  show ?thesis
  proof (cases "json_dumps_tiers (get_tiers v) = json_dumps_tiers (get_tiers w)
      \<or> all_details (get_tiers v) (get_tiers w) = []")
    case True
    with v w show ?thesis by (auto simp: modified_trainer_change_def Let_def)
  next
    case False
    with v w show ?thesis by (simp add: modified_trainer_change_def Let_def)
  qed
qed

lemma compare_data_ok: "\<exists>chs. compare_data old_data new_data = Inr chs"
proof -
  let ?on = "set (dict_keys old_data)" and ?nn = "set (dict_keys new_data)"
  have "\<forall>x \<in> set (sorted_list_of_set (?nn - ?on)). \<exists>ys. new_trainer_change new_data x = Inr ys"
    using new_trainer_change_ok [of _ new_data] by fastforce
  from for_each_total [OF this] obtain c1 where
    c1: "for_each (new_trainer_change new_data) (sorted_list_of_set (?nn - ?on)) = Inr c1" ..
  have "\<forall>x \<in> set (sorted_list_of_set (?on - ?nn)). \<exists>ys. removed_trainer_change x = Inr ys"
    by (simp add: removed_trainer_change_def)
  from for_each_total [OF this] obtain c2 where
    c2: "for_each removed_trainer_change (sorted_list_of_set (?on - ?nn)) = Inr c2" ..
  have "\<forall>x \<in> set (sorted_list_of_set (?on \<inter> ?nn)).
          \<exists>ys. modified_trainer_change old_data new_data x = Inr ys"
    using modified_trainer_change_ok [of _ old_data new_data] by fastforce
  from for_each_total [OF this] obtain c3 where
    c3: "for_each (modified_trainer_change old_data new_data) (sorted_list_of_set (?on \<inter> ?nn)) = Inr c3" ..
  from c1 c2 c3 show ?thesis by (simp add: compare_data_def Let_def)
qed

lemma compare_data_mem:
  assumes "compare_data old_data new_data = Inr chs" "c \<in> set chs"
  shows "(trainer c \<in> set (dict_keys new_data) - set (dict_keys old_data)
            \<and> change_type c = ''new_trainer'')
       \<or> (trainer c \<in> set (dict_keys old_data) - set (dict_keys new_data)
            \<and> change_type c = ''removed_trainer'')
       \<or> (trainer c \<in> set (dict_keys old_data) \<inter> set (dict_keys new_data)
            \<and> change_type c = ''modified_trainer''
            \<and> modified_trainer_change old_data new_data (trainer c) = Inr [c])"
proof -
  let ?on = "set (dict_keys old_data)" and ?nn = "set (dict_keys new_data)"
  from assms(1) obtain c1 c2 c3 where
    c1: "for_each (new_trainer_change new_data) (sorted_list_of_set (?nn - ?on)) = Inr c1" and
    c2: "for_each removed_trainer_change (sorted_list_of_set (?on - ?nn)) = Inr c2" and
    c3: "for_each (modified_trainer_change old_data new_data) (sorted_list_of_set (?on \<inter> ?nn)) = Inr c3" and
    chs: "chs = c1 @ c2 @ c3"
    by (auto simp: compare_data_def Let_def split: sum.splits)
  from assms(2) chs consider "c \<in> set c1" | "c \<in> set c2" | "c \<in> set c3" by auto
  then show ?thesis
  proof cases
    case 1
    from for_each_mem [OF c1 1] obtain x ys where
      x: "x \<in> ?nn - ?on" "new_trainer_change new_data x = Inr ys" "c \<in> set ys" by auto
    with new_trainer_change_ok [of x new_data] show ?thesis by auto
  next
    case 2
    from for_each_mem [OF c2 2] obtain x ys where
      x: "x \<in> ?on - ?nn" "removed_trainer_change x = Inr ys" "c \<in> set ys" by auto
    with removed_trainer_change_ok [of x] show ?thesis by auto
  next
    case 3
    from for_each_mem [OF c3 3] obtain x ys where
      x: "x \<in> ?on \<inter> ?nn" "modified_trainer_change old_data new_data x = Inr ys" "c \<in> set ys"
      by auto
    with modified_trainer_change_ok [of x old_data new_data] show ?thesis by auto
  qed
qed

lemma category_details_Nil:
  "set (dict_get_default old_cats c []) = set (dict_get_default new_cats c []) \<Longrightarrow>
   category_details t old_cats new_cats c = []"
  by (simp add: category_details_def Let_def)

lemma all_details_Nil:
  assumes "set_equal_topics old_tiers new_tiers"
  shows "all_details old_tiers new_tiers = []"
proof -
  have "tier_details old_tiers new_tiers t = []"
    if "t \<in> set (dict_keys old_tiers @ dict_keys new_tiers)" for t
    using assms that
    by (auto simp: tier_details_def Let_def set_equal_topics_def topics_at_def
          intro!: category_details_Nil)
  then show ?thesis by (simp add: all_details_def Let_def)
qed

lemma unchanged_no_record:
  assumes "dict_get old_data n = Some old_ent" "dict_get new_data n = Some new_ent"
    and "all_details (get_tiers old_ent) (get_tiers new_ent) = []"
  shows "\<exists>chs. compare_data old_data new_data = Inr chs \<and> (\<forall>c \<in> set chs. trainer c \<noteq> n)"
proof -
  from assms have m: "modified_trainer_change old_data new_data n = Inr []"
    by (simp add: modified_trainer_change_def dict_item_def Let_def)
  from assms(1,2) have k: "n \<in> set (dict_keys old_data)" "n \<in> set (dict_keys new_data)"
    using dict_get_Some_iff by fast+
  obtain chs where chs: "compare_data old_data new_data = Inr chs"
    using compare_data_ok by blast
  have "trainer c \<noteq> n" if "c \<in> set chs" for c
    using compare_data_mem [OF chs that] m k by auto
  with chs show ?thesis by blast
qed

lemma set_equal_tiers_topics:
  assumes "set_equal_tiers old_tiers new_tiers"
  shows "set (topics_at old_tiers t c) = set (topics_at new_tiers t c)"
proof (cases "t \<in> set (dict_keys old_tiers)")
  case False
  with assms have "t \<notin> set (dict_keys new_tiers)" by (simp add: set_equal_tiers_def)
  with False show ?thesis by (simp add: topics_at_def dict_get_default_absent)
next
  case True
  show ?thesis
  proof (cases "c \<in> set (dict_keys (dict_get_default old_tiers t []))")
    case False
    with True assms have "c \<notin> set (dict_keys (dict_get_default new_tiers t []))"
      by (simp add: set_equal_tiers_def)
    with False show ?thesis by (simp add: topics_at_def dict_get_default_absent)
  next
    case c: True
    with True assms show ?thesis by (simp add: set_equal_tiers_def)
  qed
qed

text \<open>
  C2. For every dataset \<open>d\<close>, \<^verbatim>\<open>compare_data(d, d)\<close> returns the empty list of change
  records.
\<close>

theorem compare_data_idempotent: "compare_data d d = Inr []"
proof -
  have "modified_trainer_change d d x = Inr []" if "x \<in> set (dict_keys d)" for x
    using dict_item_ok [OF that] by (auto simp: modified_trainer_change_def)
  then have "for_each (modified_trainer_change d d) (sorted_list_of_set (set (dict_keys d))) = Inr []"
    by (intro for_each_Nil) simp
  then show ?thesis by (simp add: compare_data_def Let_def)
qed

lemma set_equal_tiers_imp:
  "set_equal_tiers old_tiers new_tiers \<Longrightarrow> set_equal_topics old_tiers new_tiers"
  by (simp add: set_equal_topics_def set_equal_tiers_topics)

lemma tiers_equal_imp:
  assumes "tiers_equal t1 t2"
  shows "set_equal_tiers t1 t2"
  using assms
  by (auto simp: tiers_equal_def set_equal_tiers_def cats_equal_def topics_at_def
        dict_get_default_def)

text \<open>
  C4. For an identifier in both datasets whose old and new records have the same
  sections, the same categories and, in each category, entry lists that are equal as
  sets, \<^verbatim>\<open>compare_data\<close> returns no change record for that identifier, whether or not
  the comparison of the two serialisations fails: a difference in the order of the
  entries is not reported.
\<close>

theorem order_invisible:
  assumes "dict_get old_data n = Some old_ent" "dict_get new_data n = Some new_ent"
    and "set_equal_tiers (get_tiers old_ent) (get_tiers new_ent)"
  shows "\<exists>chs. compare_data old_data new_data = Inr chs \<and> (\<forall>c \<in> set chs. trainer c \<noteq> n)"
  using unchanged_no_record [OF assms(1,2) all_details_Nil [OF set_equal_tiers_imp [OF assms(3)]]] .

theorem order_invisible_witness:
  "dict_get [(''A'', \<lparr>name = Some ''A'', tiers = Some [(''Interesting'', [(''Pokemon'', [''X'', ''Y''])])]\<rparr>)] ''A''
     = Some \<lparr>name = Some ''A'', tiers = Some [(''Interesting'', [(''Pokemon'', [''X'', ''Y''])])]\<rparr>
   \<and> dict_get [(''A'', \<lparr>name = Some ''A'', tiers = Some [(''Interesting'', [(''Pokemon'', [''Y'', ''X''])])]\<rparr>)] ''A''
     = Some \<lparr>name = Some ''A'', tiers = Some [(''Interesting'', [(''Pokemon'', [''Y'', ''X''])])]\<rparr>
   \<and> set_equal_tiers [(''Interesting'', [(''Pokemon'', [''X'', ''Y''])])]
        [(''Interesting'', [(''Pokemon'', [''Y'', ''X''])])]
   \<and> json_dumps_tiers [(''Interesting'', [(''Pokemon'', [''X'', ''Y''])])]
        \<noteq> json_dumps_tiers [(''Interesting'', [(''Pokemon'', [''Y'', ''X''])])]
   \<and> (\<exists>chs. compare_data
          [(''A'', \<lparr>name = Some ''A'', tiers = Some [(''Interesting'', [(''Pokemon'', [''X'', ''Y''])])]\<rparr>)]
          [(''A'', \<lparr>name = Some ''A'', tiers = Some [(''Interesting'', [(''Pokemon'', [''Y'', ''X''])])]\<rparr>)]
          = Inr chs \<and> (\<forall>c \<in> set chs. trainer c \<noteq> ''A''))"
proof -
  let ?o = "\<lparr>name = Some ''A'', tiers = Some [(''Interesting'', [(''Pokemon'', [''X'', ''Y''])])]\<rparr>"
  let ?n = "\<lparr>name = Some ''A'', tiers = Some [(''Interesting'', [(''Pokemon'', [''Y'', ''X''])])]\<rparr>"
  have h1: "dict_get [(''A'', ?o)] ''A'' = Some ?o" by (simp add: dict_get_def)
  have h2: "dict_get [(''A'', ?n)] ''A'' = Some ?n" by (simp add: dict_get_def)
  have h3: "set_equal_tiers (get_tiers ?o) (get_tiers ?n)" by code_simp
  have h4: "json_dumps_tiers [(''Interesting'', [(''Pokemon'', [''X'', ''Y''])])]
        \<noteq> json_dumps_tiers [(''Interesting'', [(''Pokemon'', [''Y'', ''X''])])]" by code_simp
  from order_invisible [OF h1 h2 h3] h1 h2 h3 h4 show ?thesis by (simp add: get_tiers_def)
qed

text \<open>
  C9. For an identifier in both datasets, if in every section and category of either
  record the old and the new entry list are equal as sets, \<^verbatim>\<open>compare_data\<close> returns no
  change record for that identifier: how often an entry occurs is not reported.
\<close>

theorem multiplicity_invisible:
  assumes "dict_get old_data n = Some old_ent" "dict_get new_data n = Some new_ent"
    and "set_equal_topics (get_tiers old_ent) (get_tiers new_ent)"
  shows "\<exists>chs. compare_data old_data new_data = Inr chs \<and> (\<forall>c \<in> set chs. trainer c \<noteq> n)"
  using unchanged_no_record [OF assms(1,2) all_details_Nil [OF assms(3)]] .

theorem multiplicity_invisible_witness:
  "set_equal_topics [(''Interesting'', [(''Pokemon'', [''X'', ''X''])])]
        [(''Interesting'', [(''Pokemon'', [''X''])])]
   \<and> json_dumps_tiers [(''Interesting'', [(''Pokemon'', [''X'', ''X''])])]
        \<noteq> json_dumps_tiers [(''Interesting'', [(''Pokemon'', [''X''])])]
   \<and> (\<exists>chs. compare_data
          [(''A'', \<lparr>name = Some ''A'', tiers = Some [(''Interesting'', [(''Pokemon'', [''X'', ''X''])])]\<rparr>)]
          [(''A'', \<lparr>name = Some ''A'', tiers = Some [(''Interesting'', [(''Pokemon'', [''X''])])]\<rparr>)]
          = Inr chs \<and> (\<forall>c \<in> set chs. trainer c \<noteq> ''A''))"
proof -
  let ?o = "\<lparr>name = Some ''A'', tiers = Some [(''Interesting'', [(''Pokemon'', [''X'', ''X''])])]\<rparr>"
  let ?n = "\<lparr>name = Some ''A'', tiers = Some [(''Interesting'', [(''Pokemon'', [''X''])])]\<rparr>"
  have h1: "dict_get [(''A'', ?o)] ''A'' = Some ?o" by (simp add: dict_get_def)
  have h2: "dict_get [(''A'', ?n)] ''A'' = Some ?n" by (simp add: dict_get_def)
  have h3: "set_equal_topics (get_tiers ?o) (get_tiers ?n)" by code_simp
  have h4: "json_dumps_tiers [(''Interesting'', [(''Pokemon'', [''X'', ''X''])])]
        \<noteq> json_dumps_tiers [(''Interesting'', [(''Pokemon'', [''X''])])]" by code_simp
  from multiplicity_invisible [OF h1 h2 h3] h3 h4 show ?thesis by (simp add: get_tiers_def)
qed

lemma dict_keys_projection: "dict_keys (tiers_projection d) = dict_keys d"
  by (simp add: dict_keys_def tiers_projection_def)

lemma dict_get_projection: "dict_get (tiers_projection d) n = map_option get_tiers (dict_get d n)"
  by (induction d) (auto simp: dict_get_def tiers_projection_def)

lemma new_trainer_change_projection:
  assumes "tiers_projection d = tiers_projection d'"
  shows "new_trainer_change d n = new_trainer_change d' n"
proof -
  from assms have "map_option get_tiers (dict_get d n) = map_option get_tiers (dict_get d' n)"
    by (metis dict_get_projection)
  then show ?thesis
    by (cases "dict_get d n"; cases "dict_get d' n")
       (auto simp: new_trainer_change_def dict_item_def)
qed

lemma modified_trainer_change_projection:
  assumes "tiers_projection a = tiers_projection a'" "tiers_projection b = tiers_projection b'"
  shows "modified_trainer_change a b n = modified_trainer_change a' b' n"
proof -
  from assms(1) have 1: "map_option get_tiers (dict_get a n) = map_option get_tiers (dict_get a' n)"
    by (metis dict_get_projection)
  from assms(2) have 2: "map_option get_tiers (dict_get b n) = map_option get_tiers (dict_get b' n)"
    by (metis dict_get_projection)
  from 1 2 show ?thesis
    by (cases "dict_get a n"; cases "dict_get a' n"; cases "dict_get b n"; cases "dict_get b' n")
       (auto simp: modified_trainer_change_def dict_item_def Let_def)
qed

text \<open>
  C10. \<^verbatim>\<open>compare_data\<close> reads only the \<^verbatim>\<open>tiers\<close> of a record. When the records of every
  identifier in both datasets have equal \<^verbatim>\<open>tiers\<close> mappings, no record of type
  \<^verbatim>\<open>modified_trainer\<close> is returned; and two pairs of datasets with the same \<^verbatim>\<open>tiers\<close>
  projections give the same result, whatever their other fields are.
\<close>

theorem compare_data_reads_tiers_only:
  "((\<forall>n \<in> set (dict_keys old_data) \<inter> set (dict_keys new_data).
       rel_option (\<lambda>a b. tiers_equal (get_tiers a) (get_tiers b))
         (dict_get old_data n) (dict_get new_data n))
     \<longrightarrow> (\<exists>chs. compare_data old_data new_data = Inr chs
            \<and> (\<forall>c \<in> set chs. change_type c \<noteq> ''modified_trainer'')))
   \<and> (tiers_projection old_data = tiers_projection old_data'
        \<and> tiers_projection new_data = tiers_projection new_data'
      \<longrightarrow> compare_data old_data new_data = compare_data old_data' new_data')"
proof (intro conjI impI)
  assume h: "\<forall>n \<in> set (dict_keys old_data) \<inter> set (dict_keys new_data).
       rel_option (\<lambda>a b. tiers_equal (get_tiers a) (get_tiers b))
         (dict_get old_data n) (dict_get new_data n)"
  obtain chs where chs: "compare_data old_data new_data = Inr chs"
    using compare_data_ok by blast
  have "change_type c \<noteq> ''modified_trainer''" if c: "c \<in> set chs" for c
  proof
    assume "change_type c = ''modified_trainer''"
    with compare_data_mem [OF chs c] have
      k: "trainer c \<in> set (dict_keys old_data) \<inter> set (dict_keys new_data)" and
      m: "modified_trainer_change old_data new_data (trainer c) = Inr [c]" by auto
    from k obtain eo en where
      e: "dict_get old_data (trainer c) = Some eo" "dict_get new_data (trainer c) = Some en"
      using dict_get_Some_iff by (metis IntE)
    from h k have "rel_option (\<lambda>a b. tiers_equal (get_tiers a) (get_tiers b))
         (dict_get old_data (trainer c)) (dict_get new_data (trainer c))" by blast
    with e have "tiers_equal (get_tiers eo) (get_tiers en)" by simp
    then have "all_details (get_tiers eo) (get_tiers en) = []"
      by (intro all_details_Nil set_equal_tiers_imp tiers_equal_imp)
    with e have "modified_trainer_change old_data new_data (trainer c) = Inr []"
      by (simp add: modified_trainer_change_def dict_item_def Let_def)
    with m show False by simp
  qed
  with chs show "\<exists>chs. compare_data old_data new_data = Inr chs
            \<and> (\<forall>c \<in> set chs. change_type c \<noteq> ''modified_trainer'')" by blast
next
  assume p: "tiers_projection old_data = tiers_projection old_data'
        \<and> tiers_projection new_data = tiers_projection new_data'"
  then have k: "dict_keys old_data = dict_keys old_data'" "dict_keys new_data = dict_keys new_data'"
    by (metis dict_keys_projection)+
  from p have a: "new_trainer_change new_data = new_trainer_change new_data'"
    by (intro ext new_trainer_change_projection) simp
  from p have b: "modified_trainer_change old_data new_data
      = modified_trainer_change old_data' new_data'"
    by (intro ext modified_trainer_change_projection) simp_all
  show "compare_data old_data new_data = compare_data old_data' new_data'"
    unfolding compare_data_def k a b by (rule refl)
qed

theorem compare_data_reads_tiers_only_witness:
  "tiers_equal [(''Interesting'', [(''Pokemon'', [''X'']), (''Hobbies'', [''Y''])])]
     [(''Interesting'', [(''Hobbies'', [''Y'']), (''Pokemon'', [''X''])])]
   \<and> (\<exists>chs. compare_data
          [(''A'', \<lparr>name = Some ''Acerola'',
              tiers = Some [(''Interesting'', [(''Pokemon'', [''X'']), (''Hobbies'', [''Y''])])]\<rparr>)]
          [(''A'', \<lparr>name = Some ''ACEROLA'',
              tiers = Some [(''Interesting'', [(''Hobbies'', [''Y'']), (''Pokemon'', [''X''])])]\<rparr>)]
          = Inr chs \<and> (\<forall>c \<in> set chs. change_type c \<noteq> ''modified_trainer''))
   \<and> compare_data
        [(''A'', \<lparr>name = Some ''Acerola'', tiers = Some [(''Interesting'', [(''Pokemon'', [''X''])])]\<rparr>)]
        [(''A'', \<lparr>name = Some ''ACEROLA'', tiers = Some [(''Interesting'', [(''Pokemon'', [''X'', ''Y''])])]\<rparr>)]
      = compare_data
        [(''A'', \<lparr>name = None, tiers = Some [(''Interesting'', [(''Pokemon'', [''X''])])]\<rparr>)]
        [(''A'', \<lparr>name = None, tiers = Some [(''Interesting'', [(''Pokemon'', [''X'', ''Y''])])]\<rparr>)]"
proof -
  let ?o = "[(''A'', \<lparr>name = Some ''Acerola'',
              tiers = Some [(''Interesting'', [(''Pokemon'', [''X'']), (''Hobbies'', [''Y''])])]\<rparr>)]"
  let ?n = "[(''A'', \<lparr>name = Some ''ACEROLA'',
              tiers = Some [(''Interesting'', [(''Hobbies'', [''Y'']), (''Pokemon'', [''X''])])]\<rparr>)]"
  let ?o1 = "[(''A'', \<lparr>name = Some ''Acerola'', tiers = Some [(''Interesting'', [(''Pokemon'', [''X''])])]\<rparr>)]"
  let ?n1 = "[(''A'', \<lparr>name = Some ''ACEROLA'', tiers = Some [(''Interesting'', [(''Pokemon'', [''X'', ''Y''])])]\<rparr>)]"
  let ?o2 = "[(''A'', \<lparr>name = None, tiers = Some [(''Interesting'', [(''Pokemon'', [''X''])])]\<rparr>)]"
  let ?n2 = "[(''A'', \<lparr>name = None, tiers = Some [(''Interesting'', [(''Pokemon'', [''X'', ''Y''])])]\<rparr>)]"
  have h: "\<forall>n \<in> set (dict_keys ?o) \<inter> set (dict_keys ?n).
       rel_option (\<lambda>a b. tiers_equal (get_tiers a) (get_tiers b)) (dict_get ?o n) (dict_get ?n n)"
    by code_simp
  have p: "tiers_projection ?o1 = tiers_projection ?o2 \<and> tiers_projection ?n1 = tiers_projection ?n2"
    by (simp add: tiers_projection_def get_tiers_def)
  from compare_data_reads_tiers_only [of ?o ?n ?o ?n] h have
    a: "\<exists>chs. compare_data ?o ?n = Inr chs \<and> (\<forall>c \<in> set chs. change_type c \<noteq> ''modified_trainer'')"
    by blast
  from compare_data_reads_tiers_only [of ?o1 ?n1 ?o2 ?n2] p have
    b: "compare_data ?o1 ?n1 = compare_data ?o2 ?n2" by blast
  have e: "tiers_equal [(''Interesting'', [(''Pokemon'', [''X'']), (''Hobbies'', [''Y''])])]
     [(''Interesting'', [(''Hobbies'', [''Y'']), (''Pokemon'', [''X''])])]"
    by code_simp
  from e a b show ?thesis by blast
qed

section \<open>The changelog\<close>

lemma copy_items_ok:
  "set ns \<subseteq> set (dict_keys d) \<Longrightarrow> \<exists>res. copy_items d ns acc = Inr res"
proof (induction ns arbitrary: acc)
  case Nil
  then show ?case by simp
next
  case (Cons n ns)
  then obtain v where "dict_item d n = Inr v" using dict_item_ok [of n d] by auto
  with Cons show ?case by simp
qed

lemma save_data_changelog:
  "\<exists>res. save_data now new_data chs cl errs = Inr res
     \<and> changelog_file res =
         (if chs \<noteq> [] then
            cl\<lparr>updates := take 50 (\<lparr>date = now, trainer_count = length new_data,
                   change_count = length chs, changes = chs\<rparr> # updates cl)\<rparr>
          else cl)"
proof -
  have "set (sorted_list_of_set (set (dict_keys new_data))) \<subseteq> set (dict_keys new_data)"
    by simp
  from copy_items_ok [OF this] obtain res where
    "copy_items new_data (sorted_list_of_set (set (dict_keys new_data)))
       [(''_metadata'', Inl \<lparr>last_updated = now, meta_trainer_count = length new_data,
          total_topics = sum_list (map (\<lambda>t. topic_count (get_tiers t)) (dict_values new_data)),
          source = ''pokemon-masters-ex-game.fandom.com'', scraper_version = ''2.0'',
          errors = errs\<rparr>)] = Inr res"
    by blast
  then show ?thesis by (simp add: save_data_def Let_def)
qed

lemma take_append_take: "take n (xs @ take n ys) = take n (xs @ ys)"
  by (simp add: min_def)

lemma successive_runs_updates:
  "\<forall>r \<in> set rs. run_changes r \<noteq> [] \<Longrightarrow> rs \<noteq> [] \<Longrightarrow>
   \<exists>cl'. successive_runs cl rs = Inr cl'
      \<and> updates cl' = take 50 (rev (map run_entry rs) @ updates cl)"
proof (induction rs arbitrary: cl)
  case Nil
  then show ?case by simp
next
  case (Cons r rs)
  from Cons.prems have ne: "run_changes r \<noteq> []" by simp
  from save_data_changelog [of "run_now r" "run_data r" "run_changes r" cl "run_errors r"] ne
  obtain res where res: "save_data (run_now r) (run_data r) (run_changes r) cl (run_errors r) = Inr res"
    and u: "updates (changelog_file res) = take 50 (run_entry r # updates cl)"
    by (auto simp: run_entry_def)
  show ?case
  proof (cases "rs = []")
    case True
    with res u show ?thesis by simp
  next
    case False
    with Cons.IH [of "changelog_file res"] Cons.prems obtain cl' where
      s: "successive_runs (changelog_file res) rs = Inr cl'" and
      v: "updates cl' = take 50 (rev (map run_entry rs) @ updates (changelog_file res))"
      by auto
    from v u have "updates cl'
        = take 50 (rev (map run_entry rs) @ take 50 (run_entry r # updates cl))"
      by (simp only:)
    also have "\<dots> = take 50 (rev (map run_entry rs) @ run_entry r # updates cl)"
      by (rule take_append_take)
    also have "\<dots> = take 50 (rev (map run_entry (r # rs)) @ updates cl)"
      by simp
    finally show ?thesis using res s by simp
  qed
qed

text \<open>
  C5. For every changelog history and every non-empty change list, \<^verbatim>\<open>save_data\<close> puts a
  new entry in front of the history and keeps the first 50 entries of the result, so the
  newest entry is first, at most 50 entries are stored and the oldest are dropped. After
  60 successive runs with at least one change each, the stored changelog holds exactly
  50 entries: those of the 50 latest runs, the most recent first.
\<close>

theorem changelog_capped:
  "(chs \<noteq> [] \<longrightarrow>
      (\<exists>res. save_data now new_data chs cl errs = Inr res
         \<and> updates (changelog_file res)
             = take 50 (\<lparr>date = now, trainer_count = length new_data,
                   change_count = length chs, changes = chs\<rparr> # updates cl)
         \<and> length (updates (changelog_file res)) \<le> 50
         \<and> hd (updates (changelog_file res))
             = \<lparr>date = now, trainer_count = length new_data,
                   change_count = length chs, changes = chs\<rparr>))
   \<and> (length rs = 60 \<and> (\<forall>r \<in> set rs. run_changes r \<noteq> []) \<longrightarrow>
      (\<exists>cl'. successive_runs cl rs = Inr cl'
         \<and> length (updates cl') = 50
         \<and> updates cl' = map run_entry (take 50 (rev rs))))"
proof (intro conjI impI)
  assume "chs \<noteq> []"
  with save_data_changelog [of now new_data chs cl errs]
  show "\<exists>res. save_data now new_data chs cl errs = Inr res
         \<and> updates (changelog_file res)
             = take 50 (\<lparr>date = now, trainer_count = length new_data,
                   change_count = length chs, changes = chs\<rparr> # updates cl)
         \<and> length (updates (changelog_file res)) \<le> 50
         \<and> hd (updates (changelog_file res))
             = \<lparr>date = now, trainer_count = length new_data,
                   change_count = length chs, changes = chs\<rparr>"
    by auto
next
  assume a: "length rs = 60 \<and> (\<forall>r \<in> set rs. run_changes r \<noteq> [])"
  then have "rs \<noteq> []" by auto
  with successive_runs_updates [of rs cl] a obtain cl' where
    c: "successive_runs cl rs = Inr cl'"
      "updates cl' = take 50 (rev (map run_entry rs) @ updates cl)" by blast
  from a have "take 50 (rev (map run_entry rs) @ updates cl) = map run_entry (take 50 (rev rs))"
    by (simp add: rev_map take_map)
  with c a show "\<exists>cl'. successive_runs cl rs = Inr cl'
         \<and> length (updates cl') = 50
         \<and> updates cl' = map run_entry (take 50 (rev rs))"
    by simp
qed

theorem changelog_capped_witness:
  "(\<exists>res. save_data ''2026-01-01 00:00 UTC'' []
        [\<lparr>change_type = ''removed_trainer'', trainer = ''Red'', details = None\<rparr>]
        \<lparr>updates = []\<rparr> [] = Inr res
      \<and> updates (changelog_file res)
          = [\<lparr>date = ''2026-01-01 00:00 UTC'', trainer_count = 0, change_count = 1,
               changes = [\<lparr>change_type = ''removed_trainer'', trainer = ''Red'', details = None\<rparr>]\<rparr>])
   \<and> length (replicate 60 \<lparr>run_now = ''2026-01-01 00:00 UTC'', run_data = [],
          run_changes = [\<lparr>change_type = ''removed_trainer'', trainer = ''Red'', details = None\<rparr>],
          run_errors = []\<rparr>) = 60
   \<and> (\<exists>cl'. successive_runs \<lparr>updates = []\<rparr>
          (replicate 60 \<lparr>run_now = ''2026-01-01 00:00 UTC'', run_data = [],
             run_changes = [\<lparr>change_type = ''removed_trainer'', trainer = ''Red'', details = None\<rparr>],
             run_errors = []\<rparr>) = Inr cl'
        \<and> length (updates cl') = 50)"
proof -
  let ?c = "[\<lparr>change_type = ''removed_trainer'', trainer = ''Red'', details = None\<rparr>]"
  let ?r = "\<lparr>run_now = ''2026-01-01 00:00 UTC'', run_data = [], run_changes = ?c, run_errors = []\<rparr>"
  have h1: "?c \<noteq> []" by simp
  have h2: "length (replicate 60 ?r) = 60 \<and> (\<forall>r \<in> set (replicate 60 ?r). run_changes r \<noteq> [])"
    by simp
  from changelog_capped [of ?c "''2026-01-01 00:00 UTC''" "[]" "\<lparr>updates = []\<rparr>" "[]" "replicate 60 ?r"]
    h1 h2
  show ?thesis by auto
qed

section \<open>The line loop of the parser\<close>

lemma cat_match_startswith: "cat_match l = Some g \<Longrightarrow> startswith l ''!colspan=''"
  by (simp add: cat_match_def split: if_splits)

lemma startswith_head: "startswith l (p # ps) \<Longrightarrow> \<exists>t. l = p # t"
  by (cases l) (auto simp: startswith_def)

lemma header_not_skipped:
  assumes "cat_match l = Some g"
  shows "l \<noteq> [] \<and> l \<noteq> ''|-'' \<and> l \<noteq> ''|}'' \<and> \<not> startswith l ''{|'' \<and> \<not> startswith l ''|''"
proof -
  from cat_match_startswith [OF assms] obtain t where "l = CHR ''!'' # t"
    using startswith_head by blast
  then show ?thesis by (simp add: startswith_def)
qed

lemma dict_set_same: "dict_get d k = Some v \<Longrightarrow> dict_set d k v = d"
  by (simp add: dict_get_def dict_set_def update_triv)

lemma dict_set_twice: "dict_set (dict_set d k v) k v' = dict_set d k v'"
  by (simp add: dict_set_def)

lemma append_topic_eq:
  "dict_get cats c = Some old \<Longrightarrow> append_topic cats c t = Inr (dict_set cats c (old @ [t]))"
  by (simp add: append_topic_def dict_item_def)

lemma append_topics_eq:
  "dict_get cats c = Some old \<Longrightarrow>
   append_topics cats c ts
     = Inr (dict_set cats c (old @ filter (\<lambda>t. t \<noteq> []) (map strip ts)))"
proof (induction ts arbitrary: cats old)
  case Nil
  then show ?case by (simp add: dict_set_same)
next
  case (Cons t ts)
  show ?case
  proof (cases "strip t = []")
    case True
    with Cons show ?thesis by simp
  next
    case False
    have "dict_get (dict_set cats c (old @ [strip t])) c = Some (old @ [strip t])"
      by (simp add: dict_get_set)
    from Cons.IH [OF this] False Cons.prems show ?thesis
      by (simp add: append_topic_eq dict_set_twice)
  qed
qed

lemma parse_line_header:
  "header_name l = Some c \<Longrightarrow> parse_line (cats, cur) l = Inr (dict_set cats c [], Some c)"
  using header_not_skipped [of "strip l"]
  by (auto simp: header_name_def parse_line_def Let_def)

lemma parse_line_active:
  assumes "dict_get cats c = Some old" "c \<noteq> []" "header_name l = None"
  shows "parse_line (cats, Some c) l = Inr (dict_set cats c (old @ entry_topics l), Some c)"
proof -
  from assms(3) have n: "cat_match (strip l) = None" by (simp add: header_name_def)
  have e: "\<not> startswith [] ''|''" "\<not> startswith ''|-'' ''{|''" by (simp_all add: startswith_def)
  have b: "startswith x ''{|'' \<Longrightarrow> \<not> startswith x ''|''" for x
    by (cases x) (auto simp: startswith_def)
  from assms(1,2) n e b show ?thesis
    by (auto simp: parse_line_def entry_topics_def Let_def append_topics_eq append_topic_eq
          dict_set_same)
qed

lemma parse_line_idle:
  assumes "header_name l = None" "cur = None \<or> cur = Some []"
  shows "parse_line (cats, cur) l = Inr (cats, cur)"
  using assms by (auto simp: parse_line_def header_name_def Let_def)

section \<open>Sections and categories of the parse result\<close>

lemma parse_line_keys:
  assumes "cur_ok st" "parse_line st l = Inr st'"
  shows "set (dict_keys (fst st')) = set (dict_keys (fst st)) \<union> set_option (header_name l)"
proof -
  obtain cats cur where st: "st = (cats, cur)" by (cases st)
  show ?thesis
  proof (cases "header_name l")
    case (Some c)
    from parse_line_header [OF Some, of cats cur] assms(2) st Some show ?thesis
      by (auto simp: dict_keys_set)
  next
    case None
    show ?thesis
    proof (cases "cur = None \<or> cur = Some []")
      case True
      from parse_line_idle [OF None True, of cats] assms(2) st None show ?thesis by auto
    next
      case False
      then obtain c where c: "cur = Some c" "c \<noteq> []" by auto
      with assms(1) st obtain old where old: "dict_get cats c = Some old"
        using dict_get_Some_iff [of cats c] by (auto simp: cur_ok_def)
      from parse_line_active [OF old c(2) None] assms(2) st c None old show ?thesis
        using dict_get_Some_iff [of cats c] by (auto simp: dict_keys_set)
    qed
  qed
qed

lemma parse_lines_keys:
  "cur_ok st \<Longrightarrow> parse_lines st ls = Inr st' \<Longrightarrow>
   set (dict_keys (fst st'))
     = set (dict_keys (fst st)) \<union> {c. \<exists>l \<in> set ls. header_name l = Some c}"
proof (induction ls arbitrary: st)
  case Nil
  then show ?case by simp
next
  case (Cons l ls)
  from parse_line_ok [OF Cons.prems(1), of l] obtain st1 where
    st1: "parse_line st l = Inr st1" "cur_ok st1" by blast
  with Cons.prems(2) have "parse_lines st1 ls = Inr st'" by simp
  from Cons.IH [OF st1(2) this] parse_line_keys [OF Cons.prems(1) st1(1)]
  show ?case by (cases "header_name l") auto
qed

lemma parse_tier_content_keys:
  "parse_tier_content content = Inr cats \<Longrightarrow>
   set (dict_keys cats) = {c. \<exists>l \<in> set (py_split content [CHR 0x0A]). header_name l = Some c}"
proof -
  assume a: "parse_tier_content content = Inr cats"
  have c: "cur_ok ([], None)" by (simp add: cur_ok_def)
  from a obtain st' where "parse_lines ([], None) (py_split content [CHR 0x0A]) = Inr st'"
    "cats = fst st'" by (auto simp: parse_tier_content_def split: sum.splits)
  with parse_lines_keys [OF c this(1)] show ?thesis by (simp add: dict_keys_def)
qed

lemma parse_lines_append:
  "parse_lines st (xs @ ys)
     = (case parse_lines st xs of Inl e \<Rightarrow> Inl e | Inr st' \<Rightarrow> parse_lines st' ys)"
  by (induction xs arbitrary: st) (auto split: sum.splits)









section \<open>Entries and normalised categories in the parser's result\<close>

lemma strip_subset: "set (strip s) \<subseteq> set s"
proof -
  have "set (dropWhile is_space (rev (dropWhile is_space s))) \<subseteq> set (rev (dropWhile is_space s))"
    by (rule set_dropWhileD [THEN subsetI]) 
  also have "\<dots> \<subseteq> set s" using set_dropWhileD [of _ is_space s] by auto
  finally show ?thesis by (simp add: strip_def)
qed

lemma dropWhile_keeps: "c \<in> set xs \<Longrightarrow> \<not> P c \<Longrightarrow> c \<in> set (dropWhile P xs)"
  by (induction xs) auto

lemma strip_keeps: "c \<in> set s \<Longrightarrow> \<not> is_space c \<Longrightarrow> c \<in> set (strip s)"
  by (simp add: strip_def dropWhile_keeps)

lemma strip_last: "strip s \<noteq> [] \<Longrightarrow> \<not> is_space (last (strip s))"
proof -
  assume a: "strip s \<noteq> []"
  let ?t = "dropWhile is_space (rev (dropWhile is_space s))"
  from a have t: "?t \<noteq> []" by (simp add: strip_def)
  then have "\<not> is_space (hd ?t)" by (rule hd_dropWhile)
  moreover from t have "last (rev ?t) = hd ?t" by (simp add: last_rev)
  ultimately show ?thesis by (simp add: strip_def)
qed

lemma drop_quote_suffix: "\<exists>p. s = p @ drop_quote s"
proof (cases s)
  case Nil
  then show ?thesis by (simp add: drop_quote_def)
next
  case (Cons c cs)
  show ?thesis
  proof (cases "c = CHR 0x22 \<or> c = CHR 0x27")
    case True
    with Cons have "s = [c] @ drop_quote s" by (simp add: drop_quote_def)
    then show ?thesis ..
  next
    case False
    with Cons have "s = [] @ drop_quote s" by (simp add: drop_quote_def)
    then show ?thesis ..
  qed
qed

lemma cat_match_suffix:
  assumes "cat_match l = Some g" "CHR 0x0A \<notin> set l"
  shows "\<exists>p. l = p @ g \<and> g \<noteq> []"
proof -
  let ?r1 = "drop_quote (drop 9 l)"
  let ?r2 = "drop_quote (dropWhile is_digit ?r1)"
  from assms(1) obtain c r3 where r2: "?r2 = c # r3" and
    g: "g = takeWhile (\<lambda>x. x \<noteq> CHR 0x0A) r3" "g \<noteq> []"
    by (auto simp: cat_match_def Let_def split: if_splits list.splits)
  obtain p1 where p1: "drop 9 l = p1 @ ?r1" using drop_quote_suffix by blast
  obtain p2 where p2: "dropWhile is_digit ?r1 = p2 @ ?r2" using drop_quote_suffix by blast
  have "l = take 9 l @ drop 9 l" by simp
  also have "\<dots> = take 9 l @ p1 @ ?r1" using p1 by simp
  also have "?r1 = takeWhile is_digit ?r1 @ dropWhile is_digit ?r1" by simp
  also have "dropWhile is_digit ?r1 = p2 @ c # r3" using p2 r2 by simp
  finally have l: "l = (take 9 l @ p1 @ takeWhile is_digit ?r1 @ p2 @ [c]) @ r3" by simp
  then have "set r3 \<subseteq> set l" by (metis set_append sup_ge2)
  with assms(2) have "\<forall>x \<in> set r3. x \<noteq> CHR 0x0A" by auto
  then have "takeWhile (\<lambda>x. x \<noteq> CHR 0x0A) r3 = r3" by (simp add: takeWhile_eq_all_conv)
  with g l show ?thesis by metis
qed

lemma header_name_nonempty:
  assumes "header_name l = Some c" "CHR 0x0A \<notin> set l"
  shows "c \<noteq> []"
proof -
  from assms(1) obtain g where g: "cat_match (strip l) = Some g"
    and c: "c = (if contains ''Pok'' (strip g) then ''Pokemon'' else strip g)"
    by (auto simp: header_name_def)
  from assms(2) strip_subset [of l] have "CHR 0x0A \<notin> set (strip l)" by auto
  from cat_match_suffix [OF g this] obtain p where p: "strip l = p @ g" "g \<noteq> []" by blast
  then have "last (strip l) = last g" "strip l \<noteq> []" by simp_all
  with strip_last [of l] have "\<not> is_space (last g)" by simp
  moreover from p have "last g \<in> set g" by simp
  ultimately have "last g \<in> set (strip g)" by (simp add: strip_keeps)
  then have "strip g \<noteq> []" by auto
  with c show ?thesis by simp
qed

lemma split_from_no_sep:
  "l \<in> set (split_from [s] cur xs) \<Longrightarrow> s \<notin> set cur \<Longrightarrow> s \<notin> set l"
proof (induction xs arbitrary: cur)
  case Nil
  then show ?case by simp
next
  case (Cons x xs)
  show ?case
  proof (cases "x = s")
    case True
    with Cons.prems have "l = cur \<or> l \<in> set (split_from [s] [] xs)"
      by (simp add: startswith_def)
    with Cons.IH [of "[]"] Cons.prems(2) show ?thesis by auto
  next
    case False
    with Cons.prems have "l \<in> set (split_from [s] (cur @ [x]) xs)"
      by (simp add: startswith_def)
    with Cons.IH [of "cur @ [x]"] Cons.prems(2) False show ?thesis by auto
  qed
qed

lemma py_split_no_sep: "l \<in> set (py_split content [s]) \<Longrightarrow> s \<notin> set l"
  using split_from_no_sep [of l s "[]" content] by (simp add: py_split_def)

lemma parse_lines_active_run:
  "dict_get cats c = Some old \<Longrightarrow> c \<noteq> [] \<Longrightarrow> \<forall>l \<in> set ls. header_name l = None \<Longrightarrow>
   parse_lines (cats, Some c) ls
     = Inr (dict_set cats c (old @ concat (map entry_topics ls)), Some c)"
proof (induction ls arbitrary: cats old)
  case Nil
  then show ?case by (simp add: dict_set_same)
next
  case (Cons l ls)
  from Cons.prems have h: "header_name l = None" by simp
  have g: "dict_get (dict_set cats c (old @ entry_topics l)) c = Some (old @ entry_topics l)"
    by (simp add: dict_get_set)
  from Cons.IH [OF g Cons.prems(2)] Cons.prems(3)
    parse_line_active [OF Cons.prems(1,2) h]
  show ?case by (simp add: dict_set_twice)
qed

lemma parse_tier_content_category:
  assumes "py_split content [CHR 0x0A] = pre @ h # ls" "header_name h = Some c"
    and "\<forall>l \<in> set ls. header_name l = None"
  shows "\<exists>cats. parse_tier_content content = Inr cats
           \<and> dict_get cats c = Some (concat (map entry_topics ls))"
proof -
  have "h \<in> set (py_split content [CHR 0x0A])" using assms(1) by simp
  then have "CHR 0x0A \<notin> set h" by (rule py_split_no_sep)
  from header_name_nonempty [OF assms(2) this] have ne: "c \<noteq> []" .
  have "cur_ok ([], None)" by (simp add: cur_ok_def)
  from parse_lines_ok [OF this, of pre] obtain st1 where
    st1: "parse_lines ([], None) pre = Inr st1" by blast
  have h: "parse_line st1 h = Inr (dict_set (fst st1) c [], Some c)"
    using parse_line_header [OF assms(2), of "fst st1" "snd st1"] by simp
  have g: "dict_get (dict_set (fst st1) c []) c = Some []" by (simp add: dict_get_set)
  from parse_lines_active_run [OF g ne assms(3)] st1 h assms(1) show ?thesis
    by (simp add: parse_tier_content_def parse_lines_append dict_get_set)
qed

lemma dict_keys_distinct_set:
  "distinct (dict_keys d) \<Longrightarrow> distinct (dict_keys (dict_set d k v))"
  by (simp add: dict_keys_def dict_set_def distinct_update)

lemma parse_line_distinct:
  assumes "cur_ok st" "parse_line st l = Inr st'" "distinct (dict_keys (fst st))"
  shows "distinct (dict_keys (fst st'))"
proof -
  obtain cats cur where st: "st = (cats, cur)" by (cases st)
  show ?thesis
  proof (cases "header_name l")
    case (Some c)
    from parse_line_header [OF Some, of cats cur] assms(2,3) st show ?thesis
      by (auto simp: dict_keys_distinct_set)
  next
    case None
    show ?thesis
    proof (cases "cur = None \<or> cur = Some []")
      case True
      from parse_line_idle [OF None True, of cats] assms(2,3) st show ?thesis by auto
    next
      case False
      then obtain c where c: "cur = Some c" "c \<noteq> []" by auto
      with assms(1) st obtain old where old: "dict_get cats c = Some old"
        using dict_get_Some_iff [of cats c] by (auto simp: cur_ok_def)
      from parse_line_active [OF old c(2) None] assms(2,3) st c show ?thesis
        by (auto simp: dict_keys_distinct_set)
    qed
  qed
qed

lemma parse_lines_distinct:
  "cur_ok st \<Longrightarrow> parse_lines st ls = Inr st' \<Longrightarrow> distinct (dict_keys (fst st)) \<Longrightarrow>
   distinct (dict_keys (fst st'))"
proof (induction ls arbitrary: st)
  case Nil
  then show ?case by simp
next
  case (Cons l ls)
  from parse_line_ok [OF Cons.prems(1), of l] obtain st1 where
    st1: "parse_line st l = Inr st1" "cur_ok st1" by blast
  with Cons.prems(2) have p: "parse_lines st1 ls = Inr st'" by simp
  from parse_line_distinct [OF Cons.prems(1) st1(1) Cons.prems(3)]
  have "distinct (dict_keys (fst st1))" .
  from Cons.IH [OF st1(2) p this] show ?case .
qed

lemma parse_tier_content_distinct:
  assumes "parse_tier_content content = Inr cats"
  shows "distinct (dict_keys cats)"
proof -
  have c: "cur_ok ([], None)" by (simp add: cur_ok_def)
  from assms obtain st' where
    p: "parse_lines ([], None) (py_split content [CHR 0x0A]) = Inr st'" and f: "cats = fst st'"
    by (auto simp: parse_tier_content_def split: sum.splits)
  have "distinct (dict_keys (fst (([], None) :: cats \<times> string option)))"
    by (simp add: dict_keys_def)
  from parse_lines_distinct [OF c p this] f show ?thesis by simp
qed

lemma header_name_Pok:
  "header_name l = Some k \<Longrightarrow> contains ''Pok'' k \<Longrightarrow> k = ''Pokemon''"
  by (auto simp: header_name_def split: if_splits)



text \<open>
  C7. When a line of a section's content is a category header whose trimmed label
  contains \<^verbatim>\<open>Pok\<close>, the mapping that \<^verbatim>\<open>parse_tier_content\<close> returns has the key
  \<^verbatim>\<open>Pokemon\<close>, has every key once, and has no other key that contains \<^verbatim>\<open>Pok\<close>: all
  such spellings are collapsed into the one category. When no category header follows
  that line, the list under \<^verbatim>\<open>Pokemon\<close> is the entries of the lines after it.
\<close>

theorem pokemon_header_normalized:
  assumes "line \<in> set (py_split content [CHR 0x0A])"
    and "cat_match (strip line) = Some label" "contains ''Pok'' (strip label)"
  shows "\<exists>cats. parse_tier_content content = Inr cats
           \<and> ''Pokemon'' \<in> set (dict_keys cats)
           \<and> distinct (dict_keys cats)
           \<and> (\<forall>k \<in> set (dict_keys cats). contains ''Pok'' k \<longrightarrow> k = ''Pokemon'')
           \<and> (\<forall>pre ls. py_split content [CHR 0x0A] = pre @ line # ls
                 \<and> (\<forall>l \<in> set ls. header_name l = None)
                \<longrightarrow> dict_get cats ''Pokemon'' = Some (concat (map entry_topics ls)))"
proof -
  from assms(2,3) have h: "header_name line = Some ''Pokemon''" by (simp add: header_name_def)
  obtain cats where c: "parse_tier_content content = Inr cats"
    using parse_tier_content_ok by blast
  note k = parse_tier_content_keys [OF c]
  from k h assms(1) have 1: "''Pokemon'' \<in> set (dict_keys cats)" by auto
  from parse_tier_content_distinct [OF c] have 2: "distinct (dict_keys cats)" .
  from k have 3: "\<forall>k \<in> set (dict_keys cats). contains ''Pok'' k \<longrightarrow> k = ''Pokemon''"
    using header_name_Pok by auto
  have 4: "dict_get cats ''Pokemon'' = Some (concat (map entry_topics ls))"
    if "py_split content [CHR 0x0A] = pre @ line # ls \<and> (\<forall>l \<in> set ls. header_name l = None)"
    for pre ls
    using parse_tier_content_category [OF _ h, of content pre ls] that c by auto
  from c 1 2 3 4 show ?thesis by blast
qed

theorem pokemon_header_normalized_witness:
  "(''!colspan=\"2\"| Pok'' @ [CHR 0xE9] @ ''mon '')
     \<in> set (py_split ((''!colspan=\"2\"| Pok'' @ [CHR 0xE9] @ ''mon '') @ [CHR 0x0A] @ ''|Pikachu''
            @ [CHR 0x0A] @ ''!colspan=2|Pokemon Topics'' @ [CHR 0x0A] @ ''|Eevee||Mew'')
          [CHR 0x0A])
   \<and> cat_match (strip (''!colspan=\"2\"| Pok'' @ [CHR 0xE9] @ ''mon ''))
       = Some ('' Pok'' @ [CHR 0xE9] @ ''mon'')
   \<and> contains ''Pok'' (strip ('' Pok'' @ [CHR 0xE9] @ ''mon''))
   \<and> (\<exists>cats. parse_tier_content ((''!colspan=\"2\"| Pok'' @ [CHR 0xE9] @ ''mon '') @ [CHR 0x0A]
            @ ''|Pikachu'' @ [CHR 0x0A] @ ''!colspan=2|Pokemon Topics'' @ [CHR 0x0A]
            @ ''|Eevee||Mew'') = Inr cats
         \<and> ''Pokemon'' \<in> set (dict_keys cats) \<and> distinct (dict_keys cats)
         \<and> (\<forall>k \<in> set (dict_keys cats). contains ''Pok'' k \<longrightarrow> k = ''Pokemon''))
   \<and> ''!colspan=2|Pokemon Topics''
       \<in> set (py_split ((''!colspan=\"2\"| Pok'' @ [CHR 0xE9] @ ''mon '') @ [CHR 0x0A] @ ''|Pikachu''
            @ [CHR 0x0A] @ ''!colspan=2|Pokemon Topics'' @ [CHR 0x0A] @ ''|Eevee||Mew'')
          [CHR 0x0A])
   \<and> cat_match (strip ''!colspan=2|Pokemon Topics'') = Some ''Pokemon Topics''
   \<and> contains ''Pok'' (strip ''Pokemon Topics'')
   \<and> (\<exists>cats. parse_tier_content ((''!colspan=\"2\"| Pok'' @ [CHR 0xE9] @ ''mon '') @ [CHR 0x0A]
            @ ''|Pikachu'' @ [CHR 0x0A] @ ''!colspan=2|Pokemon Topics'' @ [CHR 0x0A]
            @ ''|Eevee||Mew'') = Inr cats
         \<and> dict_get cats ''Pokemon'' = Some [''Eevee'', ''Mew''])
   \<and> parse_tier_content ((''!colspan=\"2\"| Pok'' @ [CHR 0xE9] @ ''mon '') @ [CHR 0x0A]
          @ ''|Pikachu'' @ [CHR 0x0A] @ ''!colspan=2|Pokemon Topics'' @ [CHR 0x0A]
          @ ''|Eevee||Mew'')
       = Inr [(''Pokemon'', [''Eevee'', ''Mew''])]"
proof -
  let ?l1 = "''!colspan=\"2\"| Pok'' @ [CHR 0xE9] @ ''mon ''"
  let ?l2 = "''!colspan=2|Pokemon Topics''"
  let ?c = "?l1 @ [CHR 0x0A] @ ''|Pikachu'' @ [CHR 0x0A] @ ?l2 @ [CHR 0x0A] @ ''|Eevee||Mew''"
  have m1: "?l1 \<in> set (py_split ?c [CHR 0x0A])" by code_simp
  have g1: "cat_match (strip ?l1) = Some ('' Pok'' @ [CHR 0xE9] @ ''mon'')" by code_simp
  have p1: "contains ''Pok'' (strip ('' Pok'' @ [CHR 0xE9] @ ''mon''))" by code_simp
  have m2: "?l2 \<in> set (py_split ?c [CHR 0x0A])" by code_simp
  have g2: "cat_match (strip ?l2) = Some ''Pokemon Topics''" by code_simp
  have p2: "contains ''Pok'' (strip ''Pokemon Topics'')" by code_simp
  have s2: "py_split ?c [CHR 0x0A] = [?l1, ''|Pikachu''] @ ?l2 # [''|Eevee||Mew'']
      \<and> (\<forall>l \<in> set [''|Eevee||Mew'']. header_name l = None)"
    by code_simp
  have e2: "concat (map entry_topics [''|Eevee||Mew'']) = [''Eevee'', ''Mew'']" by code_simp
  have v: "parse_tier_content ?c = Inr [(''Pokemon'', [''Eevee'', ''Mew''])]" by code_simp
  from pokemon_header_normalized [OF m1 g1 p1] obtain cats1 where
    c1: "parse_tier_content ?c = Inr cats1" and
    k1: "''Pokemon'' \<in> set (dict_keys cats1)" and
    d1: "distinct (dict_keys cats1)" and
    o1: "\<forall>k \<in> set (dict_keys cats1). contains ''Pok'' k \<longrightarrow> k = ''Pokemon''"
    by (elim exE conjE)
  have a1: "\<exists>cats. parse_tier_content ?c = Inr cats
         \<and> ''Pokemon'' \<in> set (dict_keys cats) \<and> distinct (dict_keys cats)
         \<and> (\<forall>k \<in> set (dict_keys cats). contains ''Pok'' k \<longrightarrow> k = ''Pokemon'')"
    by (rule exI [of _ cats1]) (intro conjI c1 k1 d1 o1)
  from pokemon_header_normalized [OF m2 g2 p2] obtain cats2 where
    c2: "parse_tier_content ?c = Inr cats2" and
    t2: "\<forall>pre ls. py_split ?c [CHR 0x0A] = pre @ ?l2 # ls
                 \<and> (\<forall>l \<in> set ls. header_name l = None)
                \<longrightarrow> dict_get cats2 ''Pokemon'' = Some (concat (map entry_topics ls))"
    by (elim exE conjE)
  have "dict_get cats2 ''Pokemon'' = Some (concat (map entry_topics [''|Eevee||Mew'']))"
    using t2 [THEN spec, THEN spec, THEN mp, OF s2] .
  then have u2: "dict_get cats2 ''Pokemon'' = Some [''Eevee'', ''Mew'']" unfolding e2 .
  have a2: "\<exists>cats. parse_tier_content ?c = Inr cats
         \<and> dict_get cats ''Pokemon'' = Some [''Eevee'', ''Mew'']"
    by (rule exI [of _ cats2]) (intro conjI c2 u2)
  show ?thesis by (intro conjI m1 g1 p1 a1 m2 g2 p2 a2 v)
qed

end
